theory Spec2Isabelle
  imports Complex_Main "HOL-Library.Word" "HOL-Library.Multiset"
begin

unbundle bit_operations_syntax

section \<open>Python values shared by the embedding\<close>

text \<open>
  The exceptions the modelled code can raise.  \<open>NonFinite\<close> is not a Python
  exception: numpy does not raise on a division by zero, it warns and yields
  \<open>inf\<close> or \<open>nan\<close>.  The model's floats are finite, so it stops with
  \<open>NonFinite\<close> where numpy would go on with a value that is not a number of the
  model.
\<close>

datatype py_error =
  IndexError | AttributeError | ZeroDivisionError | TypeError | ValueError | NonFinite

text \<open>
  Floating point.  A finite binary64 value is a real number, and comparing two
  of them is exact.  The arithmetic rounds; how it rounds is not fixed by the
  model: the operations are parameters, each taking the exact values of its
  operands (an integer operand is converted by the operation) and giving the
  binary64 result.  Every general theorem below holds for all such operations.
  \<open>exact_ops\<close> computes without rounding; it is used for concrete runs whose
  operations are exact in binary64 as well.
\<close>

record float_ops =
  fl_add :: "real \<Rightarrow> real \<Rightarrow> real"
  fl_sub :: "real \<Rightarrow> real \<Rightarrow> real"
  fl_mul :: "real \<Rightarrow> real \<Rightarrow> real"
  fl_div :: "real \<Rightarrow> real \<Rightarrow> real"
  fl_exp :: "real \<Rightarrow> real"

definition exact_ops :: float_ops where
  "exact_ops = \<lparr>fl_add = (+), fl_sub = (-), fl_mul = (*), fl_div = (/), fl_exp = exp\<rparr>"

text \<open>Sequencing of fallible steps: the first error is the result.\<close>

definition err_bind :: "py_error + 'a \<Rightarrow> ('a \<Rightarrow> py_error + 'b) \<Rightarrow> py_error + 'b" where
  "err_bind m f = (case m of Inl e \<Rightarrow> Inl e | Inr x \<Rightarrow> f x)"

section \<open>numpy indexing\<close>

text \<open>
  \<open>a[ix]\<close> with an array of (non-negative) integer indices gathers the entries
  in the order of \<open>ix\<close>; an index past the end raises IndexError.
\<close>

definition np_take :: "'a list \<Rightarrow> nat list \<Rightarrow> py_error + 'a list" where
  "np_take a ix =
     (if list_all (\<lambda>i. i < length a) ix then Inr (map (\<lambda>i. a ! i) ix) else Inl IndexError)"

text \<open>
  \<open>a[cond]\<close> with a boolean array keeps the entries where \<open>cond\<close> holds; the
  lengths must agree (IndexError otherwise).
\<close>

definition np_mask :: "'a list \<Rightarrow> bool list \<Rightarrow> py_error + 'a list" where
  "np_mask a cond =
     (if length cond = length a then Inr (map fst (filter snd (zip a cond)))
      else Inl IndexError)"

text \<open>\<open>xs[:n]\<close>: a negative \<open>n\<close> counts from the end.\<close>

definition py_slice_to :: "'a list \<Rightarrow> int \<Rightarrow> 'a list" where
  "py_slice_to xs n =
     (if 0 \<le> n then take (nat n) xs else take (nat (int (length xs) + n)) xs)"

text \<open>Python 3 \<open>round(x)\<close> of a float: to the nearest integer, a tie to the even one.\<close>

definition py_round :: "real \<Rightarrow> int" where
  "py_round x =
     (let f = \<lfloor>x\<rfloor>; d = x - of_int f
      in if d < 1/2 then f else if 1/2 < d then f + 1 else if even f then f else f + 1)"

section \<open>kmerizer: the primitives on sorted k-mer arrays\<close>

text \<open>A k-mer is an unsigned 64-bit integer (\<open>numpy.uint64\<close>).\<close>

type_synonym kmer = "64 word"

text \<open>
  Modelled from the spec: \<open>kmerizer.intersect\<close>, \<open>kmerizer.intersect_ix\<close> and
  \<open>kmerizer.diff\<close> belong to the C++ extension module \<open>strainge.kmerizer\<close>, which
  is not among the sources.  Section 4.A: \<open>intersect(a, b)\<close> returns those
  elements of \<open>a\<close> present in \<open>b\<close>, preserving \<open>a\<close>'s order;
  \<open>intersect_ix(a, b)\<close> is the companion returning the indices into \<open>a\<close>;
  \<open>diff(a, b)\<close> returns \<open>a\<close> without the elements of \<open>b\<close>, preserving order.
\<close>

definition kmerizer_intersect :: "kmer list \<Rightarrow> kmer list \<Rightarrow> kmer list" where
  "kmerizer_intersect a b = filter (\<lambda>x. x \<in> set b) a"

definition kmerizer_intersect_ix :: "kmer list \<Rightarrow> kmer list \<Rightarrow> nat list" where
  "kmerizer_intersect_ix a b = filter (\<lambda>i. a ! i \<in> set b) [0..<length a]"

definition kmerizer_diff :: "kmer list \<Rightarrow> kmer list \<Rightarrow> kmer list" where
  "kmerizer_diff a b = filter (\<lambda>x. x \<notin> set b) a"

section \<open>kmertools.py: KmerSet\<close>

text \<open>
  The fields of \<open>KmerSet.__init__\<close>.  The operations below are those of a loaded
  set, whose \<open>kmers\<close> and \<open>counts\<close> are arrays; \<open>fingerprint\<close> and \<open>singletons\<close>
  may still be \<open>None\<close>.  Counts are unsigned machine integers, read as natural
  numbers.  The field \<open>k\<close> is named \<open>k_len\<close>.
\<close>

record KmerSet =
  k_len :: nat
  kmers :: "kmer list"
  counts :: "nat list"
  fingerprint :: "kmer list option"
  singletons :: "nat option"
  n_seqs :: nat
  n_bases :: nat
  n_kmers :: nat

text \<open>The invariants (K-1), (K-2), (K-3) of a k-mer set.\<close>

definition kmerset_inv :: "'a KmerSet_scheme \<Rightarrow> bool" where
  "kmerset_inv ks \<longleftrightarrow>
     length (kmers ks) = length (counts ks) \<and>
     sorted_wrt (<) (kmers ks) \<and>
     list_all (\<lambda>c. 1 \<le> c) (counts ks)"

text \<open>\<open>KmerSet.intersect(self, kmers)\<close>; the updated \<open>self\<close> is returned.\<close>

definition intersect :: "'a KmerSet_scheme \<Rightarrow> kmer list \<Rightarrow> py_error + 'a KmerSet_scheme" where
  "intersect self ks =
     (let ix = kmerizer_intersect_ix (kmers self) ks
      in err_bind (np_take (counts self) ix) (\<lambda>cs.
         err_bind (np_take (kmers self) ix) (\<lambda>km.
         Inr (self\<lparr>counts := cs, kmers := km\<rparr>))))"

text \<open>\<open>KmerSet.exclude(self, kmers)\<close>.\<close>

definition exclude :: "'a KmerSet_scheme \<Rightarrow> kmer list \<Rightarrow> py_error + 'a KmerSet_scheme" where
  "exclude self ks =
     (let new_kmers = kmerizer_diff (kmers self) ks;
          ix = kmerizer_intersect_ix (kmers self) new_kmers
      in err_bind (np_take (counts self) ix) (\<lambda>cs.
         Inr (self\<lparr>counts := cs, kmers := new_kmers\<rparr>)))"

text \<open>
  \<open>KmerSet.mutual_intersect(self, other)\<close>: both sets are modified, \<open>other\<close>
  against the already reduced \<open>self\<close>; the pair of the two updated sets is the
  result (two distinct objects).
\<close>

definition mutual_intersect ::
  "'a KmerSet_scheme \<Rightarrow> 'b KmerSet_scheme \<Rightarrow> py_error + ('a KmerSet_scheme \<times> 'b KmerSet_scheme)" where
  "mutual_intersect self other =
     (let ix = kmerizer_intersect_ix (kmers self) (kmers other)
      in err_bind (np_take (kmers self) ix) (\<lambda>km.
         err_bind (np_take (counts self) ix) (\<lambda>cs.
         let self' = self\<lparr>kmers := km, counts := cs\<rparr>;
             ix' = kmerizer_intersect_ix (kmers other) (kmers self')
         in err_bind (np_take (kmers other) ix') (\<lambda>okm.
            err_bind (np_take (counts other) ix') (\<lambda>ocs.
            Inr (self', other\<lparr>kmers := okm, counts := ocs\<rparr>))))))"

text \<open>
  \<open>KmerSet.freq_filter(self, min_freq=1, max_freq=None)\<close>.  \<open>if max_freq:\<close> is
  false for \<open>None\<close> and for 0.  The method returns nothing; the result here is
  the updated set.
\<close>

definition freq_filter ::
  "'a KmerSet_scheme \<Rightarrow> int \<Rightarrow> int option \<Rightarrow> py_error + 'a KmerSet_scheme" where
  "freq_filter self min_freq max_freq =
     (let condition0 = map (\<lambda>c. min_freq \<le> int c) (counts self);
          condition =
            (case max_freq of
               None \<Rightarrow> condition0
             | Some m \<Rightarrow>
                 if m \<noteq> 0 then map2 (\<lambda>b c. b \<and> int c \<le> m) condition0 (counts self)
                 else condition0)
      in err_bind (np_mask (kmers self) condition) (\<lambda>km.
         err_bind (np_mask (counts self) condition) (\<lambda>cs.
         Inr (self\<lparr>kmers := km, counts := cs\<rparr>))))"

text \<open>
  \<open>KmerSet.min_hash(self, frac)\<close>, with \<open>frac\<close> named \<open>fraction\<close>.  \<open>kmerizer.fnvhash_kmers\<close> (the hashes of the
  k-mers, from the absent extension module) and numpy's \<open>argsort\<close> (whose order
  among equal keys is left to the sorting algorithm) are parameters.  The
  product \<open>self.kmers.size * frac\<close> is a float product.  The fingerprint is
  stored in the returned set; it is also the return value of the method.
\<close>

definition min_hash ::
  "float_ops \<Rightarrow> (nat \<Rightarrow> kmer list \<Rightarrow> 64 word list) \<Rightarrow> (64 word list \<Rightarrow> nat list) \<Rightarrow>
   'a KmerSet_scheme \<Rightarrow> real \<Rightarrow> py_error + 'a KmerSet_scheme" where
  "min_hash fo fnvhash_kmers argsort self fraction =
     (let nkmers = py_round (fl_mul fo (real (length (kmers self))) fraction);
          order = py_slice_to (argsort (fnvhash_kmers (k_len self) (kmers self))) nkmers
      in err_bind (np_take (kmers self) order) (\<lambda>fp.
         Inr (self\<lparr>fingerprint := Some (sort fp)\<rparr>)))"

text \<open>The fingerprint a call of \<open>min_hash\<close> returns, or the error it raises.\<close>

text \<open>
  What numpy promises of \<open>argsort\<close>: the result is a permutation of the indices
  that puts the keys in ascending order.
\<close>

definition sorts_keys :: "64 word list \<Rightarrow> nat list \<Rightarrow> bool" where
  "sorts_keys keys order \<longleftrightarrow>
     mset order = mset [0..<length keys] \<and> sorted (map (\<lambda>i. keys ! i) order)"

definition returned_fingerprint :: "py_error + 'a KmerSet_scheme \<Rightarrow> py_error + kmer list option" where
  "returned_fingerprint r = (case r of Inl e \<Rightarrow> Inl e | Inr ks \<Rightarrow> Inr (fingerprint ks))"

text \<open>
  \<open>KmerSet.spectrum\<close>: \<open>numpy.unique(self.counts, return_counts=True)\<close>, the
  distinct counts in ascending order and how often each occurs.
\<close>

definition spectrum :: "'a KmerSet_scheme \<Rightarrow> nat list \<times> nat list" where
  "spectrum self =
     (let freq = sorted_list_of_set (set (counts self))
      in (freq, map (\<lambda>f. count_list (counts self) f) freq))"

text \<open>
  The local variables of \<open>spectrum_min_max\<close>.  \<open>loop_i\<close> is the loop variable
  \<open>i\<close>, unbound before the first iteration; \<open>broke\<close> records that the loop was
  left by \<open>break\<close>.
\<close>

record scan_state =
  min_index :: nat
  max_index :: nat
  have_min :: bool
  have_max :: bool
  last_freq :: nat
  loop_i :: "nat option"
  broke :: bool

definition scan_init :: scan_state where
  "scan_init = \<lparr>min_index = 0, max_index = 0, have_min = False, have_max = False,
                last_freq = 0, loop_i = None, broke = False\<rparr>"

text \<open>One pass through the body of the loop, up to \<open>last_freq = freq[i]\<close>.\<close>

definition scan_body ::
  "float_ops \<Rightarrow> real \<Rightarrow> nat \<Rightarrow> nat list \<Rightarrow> nat list \<Rightarrow> nat \<Rightarrow> scan_state \<Rightarrow> scan_state" where
  "scan_body fo delta max_copy_number freq cnts i st =
     (let count = cnts ! i;
          zero = freq ! i > last_freq st + 1;
          st1 =
            (if have_min st then
               (let st2 = (if count > cnts ! max_index st then st\<lparr>max_index := i\<rparr> else st)
                in if real count < fl_mul fo (real (cnts ! max_index st2)) (fl_sub fo 1 delta)
                   then st2\<lparr>have_max := True\<rparr> else st2)
             else if count > 1000 \<and>
                     real count > fl_mul fo (real (cnts ! min_index st)) (fl_add fo 1 delta)
               then st\<lparr>have_min := True\<rparr>
             else if zero \<or> count < cnts ! min_index st
               then st\<lparr>min_index := i, max_index := i\<rparr>
             else if cnts ! i < cnts ! min_index st
               then st\<lparr>min_index := i, max_index := i\<rparr>
             else st)
      in st1\<lparr>last_freq := freq ! i\<rparr>)"

text \<open>\<open>for i in range(freq.size)\<close> with its \<open>break\<close>, over the list of indices.\<close>

fun scan_loop ::
  "float_ops \<Rightarrow> real \<Rightarrow> nat \<Rightarrow> nat list \<Rightarrow> nat list \<Rightarrow> nat list \<Rightarrow> scan_state \<Rightarrow> scan_state" where
  "scan_loop fo delta max_copy_number freq cnts [] st = st"
| "scan_loop fo delta max_copy_number freq cnts (i # rest) st =
     (let zero = freq ! i > last_freq st + 1
      in if have_max st \<and> (zero \<or> freq ! i > freq ! max_index st * max_copy_number)
         then st\<lparr>loop_i := Some i, broke := True\<rparr>
         else scan_loop fo delta max_copy_number freq cnts rest
                (scan_body fo delta max_copy_number freq cnts i (st\<lparr>loop_i := Some i\<rparr>)))"

text \<open>
  \<open>KmerSet.spectrum_min_max(self, delta=.5, max_copy_number=20)\<close>.  The
  third component is \<open>freq[i - 1]\<close> for the value the loop variable has after
  the loop; a triple is only returned when \<open>min_index\<close> is not 0, so the loop has
  run and \<open>i\<close> is bound.  (\<open>freq[-1]\<close> is the last entry.)
\<close>

definition spectrum_min_max ::
  "float_ops \<Rightarrow> 'a KmerSet_scheme \<Rightarrow> real \<Rightarrow> nat \<Rightarrow> (nat \<times> nat \<times> nat) option" where
  "spectrum_min_max fo self delta max_copy_number =
     (let (freq, cnts) = spectrum self;
          st = scan_loop fo delta max_copy_number freq cnts [0..<length freq] scan_init
      in if min_index st \<noteq> 0 \<and> max_index st \<noteq> 0 \<and>
            real (cnts ! max_index st) > fl_mul fo (real (cnts ! min_index st)) (fl_add fo 1 delta)
         then (case loop_i st of
                 None \<Rightarrow> None
               | Some i \<Rightarrow>
                   Some (freq ! min_index st, freq ! max_index st,
                         if i = 0 then last freq else freq ! (i - 1)))
         else None)"

text \<open>
  Concrete k-mer sets, two sorting functions for \<open>argsort\<close> (equal keys come
  out in ascending order of their indices from the first, in descending order
  from the second) and a hash function for concrete runs.
\<close>

definition ks_a :: KmerSet where
  "ks_a = \<lparr>k_len = 23, kmers = [3, 5, 9], counts = [2, 1, 4], fingerprint = None,
           singletons = None, n_seqs = 1, n_bases = 30, n_kmers = 7\<rparr>"

definition ks_b :: KmerSet where
  "ks_b = \<lparr>k_len = 23, kmers = [5, 9, 11], counts = [1, 1, 7], fingerprint = Some [9],
           singletons = None, n_seqs = 2, n_bases = 40, n_kmers = 9\<rparr>"

text \<open>
  A k-mer set whose spectrum has an error peak at frequency 1, a valley at 2
  and rises up to its last frequency 4: 5000 k-mers seen once, 100 seen twice,
  2000 seen three times, 3000 seen four times.
\<close>

definition ks_peak_last :: KmerSet where
  "ks_peak_last =
     \<lparr>k_len = 23, kmers = map of_nat [0..<10100],
      counts = replicate 5000 1 @ replicate 100 2 @ replicate 2000 3 @ replicate 3000 4,
      fingerprint = None, singletons = Some 5000, n_seqs = 1, n_bases = 22122,
      n_kmers = 22100\<rparr>"

definition argsort_stable :: "64 word list \<Rightarrow> nat list" where
  "argsort_stable keys = sort_key (\<lambda>i. keys ! i) [0..<length keys]"

definition argsort_reversed :: "64 word list \<Rightarrow> nat list" where
  "argsort_reversed keys = sort_key (\<lambda>i. keys ! i) (rev [0..<length keys])"

definition hash_example :: "nat \<Rightarrow> kmer list \<Rightarrow> 64 word list" where
  "hash_example k ks = map (\<lambda>x. (x XOR of_nat k) * 1099511628211) ks"

section \<open>search\_tool.py\<close>


record StrainKmerSet = KmerSet +
  strain_name :: string
  strain_distinct_kmers :: nat
  strain_total_kmers :: nat


text \<open>The namedtuple \<open>Strain\<close>; its field \<open>even\<close> is named \<open>evenness_of\<close>.\<close>

record Strain =
  strain :: string
  gkmers :: nat
  ikmers :: nat
  skmers :: nat
  cov :: real
  kcov :: real
  gcov :: real
  acct :: real
  evenness_of :: real
  wcov :: real
  spec :: real
  score0 :: real
  score :: real




definition py_div :: "float_ops \<Rightarrow> real \<Rightarrow> real \<Rightarrow> py_error + real" where
  "py_div fo a b = (if b = 0 then Inl ZeroDivisionError else Inr (fl_div fo a b))"






text \<open>
  The metrics as the specification words them (step 3 of section 4.D), for the
  remaining (k-mer, count) pairs \<open>rem\<close>, the sample's original total and the
  fingerprint fraction: \<open>pan_kmers = sum(sample.counts)\<close>,
  \<open>pan_kcov = pan_kmers / |sample|\<close>, \<open>pan_pct = pan_kmers / original_total_kmers\<close>,
  scaled by \<open>1/fingerprint_fraction\<close> in fingerprint mode.
\<close>

definition spec_pan_kmers :: "(kmer \<times> nat) list \<Rightarrow> nat" where
  "spec_pan_kmers rem = sum_list (map snd rem)"

definition spec_pan_kcov :: "float_ops \<Rightarrow> (kmer \<times> nat) list \<Rightarrow> real" where
  "spec_pan_kcov fo rem = fl_div fo (real (spec_pan_kmers rem)) (real (length rem))"





section \<open>variant\_caller.py: Reference\<close>

text \<open>
  A record of \<open>skbio.io.read(f, 'fasta')\<close>: its \<open>metadata['id']\<close> and its
  bases.  \<open>Reference.scaffolds\<close> is the dict \<open>{r.metadata['id']: r}\<close>, modelled
  as the list of its items in insertion order (the keys are distinct, a key is
  the id of its value); \<open>lengths\<close> lists \<open>len(s)\<close> for the values in that
  order.
\<close>

record Sequence =
  metadata_id :: string
  bases :: string

record Reference =
  fasta :: string
  scaffolds :: "(string \<times> Sequence) list"
  lengths :: "nat list"
  length_ref :: nat

text \<open>
  \<open>Reference.__init__\<close> after the file is read: \<open>records\<close> are the records of
  the FASTA file in file order.  A later record with the id of an earlier one
  replaces its value and keeps its place, as a dict assignment does.
\<close>

fun dict_set :: "'k \<Rightarrow> 'v \<Rightarrow> ('k \<times> 'v) list \<Rightarrow> ('k \<times> 'v) list" where
  "dict_set k v [] = [(k, v)]"
| "dict_set k v ((k', v') # d) = (if k' = k then (k, v) # d else (k', v') # dict_set k v d)"

definition Reference_init :: "string \<Rightarrow> Sequence list \<Rightarrow> Reference" where
  "Reference_init path records =
     (let d = fold (\<lambda>r acc. dict_set (metadata_id r) r acc) records [];
          ls = map (\<lambda>(_, s). length (bases s)) d
      in \<lparr>fasta = path, scaffolds = d, lengths = ls, length_ref = sum_list ls\<rparr>)"

text \<open>
  \<open>Reference.scaffold_coord(coord)\<close>: the loop over
  \<open>zip(self.scaffolds.values(), self.lengths)\<close>; falling out of the loop the
  method returns \<open>None\<close>.
\<close>

fun scaffold_coord_loop :: "int \<Rightarrow> int \<Rightarrow> (Sequence \<times> nat) list \<Rightarrow> (string \<times> int) option" where
  "scaffold_coord_loop coord offset [] = None"
| "scaffold_coord_loop coord offset ((scaffold, len) # rest) =
     (if coord < offset + int len then Some (metadata_id scaffold, coord + 1 - offset)
      else scaffold_coord_loop coord (offset + int len) rest)"

definition scaffold_coord :: "Reference \<Rightarrow> int \<Rightarrow> (string \<times> int) option" where
  "scaffold_coord self coord =
     scaffold_coord_loop coord 0 (zip (map snd (scaffolds self)) (lengths self))"

text \<open>
  The attribute \<open>name\<close> of a Python \<open>str\<close>: there is none, the lookup raises
  AttributeError.
\<close>

definition str_name :: "string \<Rightarrow> py_error + string" where
  "str_name s = Inl AttributeError"

text \<open>
  \<open>Reference.scaffold_to_genome_coord(scaffold_name, coord)\<close>: the loop over
  \<open>zip(self.scaffolds, self.lengths)\<close>.  Iterating a dict yields its keys, so
  \<open>scaffold\<close> is a \<open>str\<close> and the test \<open>scaffold.name == scaffold_name\<close> starts with
  the attribute lookup on it.  Falling out of the loop the method returns
  \<open>None\<close>.
\<close>

fun scaffold_to_genome_coord_loop ::
  "string \<Rightarrow> int \<Rightarrow> int \<Rightarrow> (string \<times> nat) list \<Rightarrow> py_error + int option" where
  "scaffold_to_genome_coord_loop scaffold_name coord offset [] = Inr None"
| "scaffold_to_genome_coord_loop scaffold_name coord offset ((scaffold, len) # rest) =
     err_bind (str_name scaffold) (\<lambda>n.
       if n = scaffold_name then Inr (Some (offset + coord - 1))
       else scaffold_to_genome_coord_loop scaffold_name coord (offset + int len) rest)"

definition scaffold_to_genome_coord :: "Reference \<Rightarrow> string \<Rightarrow> int \<Rightarrow> py_error + int option" where
  "scaffold_to_genome_coord self scaffold_name coord =
     scaffold_to_genome_coord_loop scaffold_name coord 0
       (zip (map fst (scaffolds self)) (lengths self))"

text \<open>A reference of two scaffolds, of 5 and 3 bases.\<close>

definition ref_example :: Reference where
  "ref_example =
     Reference_init ''ref.fa''
       [\<lparr>metadata_id = ''s1'', bases = ''ACGTA''\<rparr>, \<lparr>metadata_id = ''s2'', bases = ''GGC''\<rparr>]"

section \<open>variant\_caller.py: the Allele flags\<close>

text \<open>
  \<open>class Allele(IntFlag)\<close>: \<open>N = 0\<close> and the members \<open>A, C, G, T, INS, DEL\<close>
  numbered by \<open>auto()\<close>, that is 1, 2, 4, 8, 16, 32.  An \<open>IntFlag\<close> value is an
  integer; combinations are formed with bitwise or.
\<close>

type_synonym Allele = int

definition Allele_N :: Allele where "Allele_N = 0"
definition Allele_A :: Allele where "Allele_A = 1"
definition Allele_C :: Allele where "Allele_C = 2"
definition Allele_G :: Allele where "Allele_G = 4"
definition Allele_T :: Allele where "Allele_T = 8"
definition Allele_INS :: Allele where "Allele_INS = 16"
definition Allele_DEL :: Allele where "Allele_DEL = 32"

text \<open>\<open>Allele.rc\<close>: four equality tests in the order of the source, then \<open>return self\<close>.\<close>

definition rc :: "Allele \<Rightarrow> Allele" where
  "rc v =
     (if v = Allele_A then Allele_T
      else if v = Allele_C then Allele_G
      else if v = Allele_G then Allele_C
      else if v = Allele_T then Allele_A
      else v)"

lemmas Allele_defs =
  Allele_N_def Allele_A_def Allele_C_def Allele_G_def Allele_T_def Allele_INS_def Allele_DEL_def

text \<open>
  \<open>ALLELE_MASKS = numpy.array([v for v in Allele if v != Allele.N])\<close>: the six
  flag values in the order of the class; \<open>ALLELE_INDEX\<close> numbers them 0 to 5.
\<close>

definition ALLELE_MASKS :: "int list" where
  "ALLELE_MASKS = [Allele_A, Allele_C, Allele_G, Allele_T, Allele_INS, Allele_DEL]"

section \<open>variant\_caller.py: ScaffoldCallData\<close>

text \<open>
  A maximal run of equal values, as \<open>utils.find_consecutive_groups\<close> yields it:
  the half-open interval \<open>[start, end)\<close>, its length and the values of the run
  (\<open>group.data\<close>).
\<close>

record Group =
  group_start :: nat
  group_end :: nat
  group_length :: nat
  group_data :: "bool list"

text \<open>
  The fields of \<open>ScaffoldCallData.__init__\<close>.  The numpy array
  \<open>alleles\<close> of shape \<open>(length, 2, 6)\<close> is a list with one entry per position: the
  row of read counts (\<open>alleles[p, 0]\<close>) and the row of base quality sums
  (\<open>alleles[p, 1]\<close>), each indexed by \<open>ALLELE_INDEX\<close>.  The counters are unsigned
  machine integers; the model reads them as natural numbers.  A field the
  constructor sets to \<open>None\<close> is an option.
\<close>

record ScaffoldCallData =
  name_scd :: string
  length_scd :: nat
  read_count :: nat
  refmask :: "int list"
  alleles :: "(nat list \<times> nat list) list"
  bad :: "nat list"
  lowmq_count :: "nat list"
  lowmq :: "bool list option"
  mq_sum :: "nat list"
  strong :: "int list option"
  weak :: "int list option"
  coverage :: "nat list option"
  high_coverage :: "bool list option"
  mean_coverage :: real
  median_coverage :: real
  coverage_cutoff :: real
  repetitiveness :: real
  gaps :: "Group list"

text \<open>
  \<open>(flags * ALLELE_MASKS[numpy.newaxis, :]).sum(axis=-1)\<close> for one position:
  every boolean is multiplied by the mask of its column and the products are
  added up.
\<close>

definition mask_sum :: "bool list \<Rightarrow> int" where
  "mask_sum flags = sum_list (map2 (\<lambda>b m. (if b then 1 else 0) * m) flags ALLELE_MASKS)"

text \<open>
  \<open>numpy.divide(quals, qual_sums[:, numpy.newaxis], where=qual_sums[:, numpy.newaxis] > 0)\<close>
  for one position.  No \<open>out\<close> array is given, so numpy allocates one and writes
  the quotient only where the condition holds; the other entries stay
  uninitialised.  What such an entry holds is not determined by the program: it
  is the parameter \<open>uninit\<close>, a value for every allele index.  The quotient is
  the float quotient.
\<close>

definition qual_fraction_row :: "float_ops \<Rightarrow> (nat \<Rightarrow> real) \<Rightarrow> nat list \<Rightarrow> real list" where
  "qual_fraction_row fo uninit row =
     map (\<lambda>a. if sum_list row > 0 then fl_div fo (real (row ! a)) (real (sum_list row))
              else uninit a)
       [0..<length row]"

text \<open>
  \<open>array[mask] = 0\<close>.  A boolean mask must have the length of the array
  (IndexError otherwise); with \<open>mask = None\<close> the index is \<open>numpy.newaxis\<close> and the
  assignment writes every entry.
\<close>

definition zero_where :: "bool list option \<Rightarrow> int list \<Rightarrow> py_error + int list" where
  "zero_where msk a =
     (case msk of
        None \<Rightarrow> Inr (map (\<lambda>_. 0) a)
      | Some m \<Rightarrow>
          if length m = length a then Inr (map2 (\<lambda>h v. if h then 0 else v) m a)
          else Inl IndexError)"

text \<open>
  \<open>ScaffoldCallData.call_alleles\<close>.  The thresholds are Python numbers, read
  as reals.  \<open>uninit p a\<close> is the uninitialised entry of \<open>qual_fraction\<close> at
  position \<open>p\<close> and allele index \<open>a\<close>.
\<close>

definition call_alleles ::
  "float_ops \<Rightarrow> (nat \<Rightarrow> nat \<Rightarrow> real) \<Rightarrow> real \<Rightarrow> real \<Rightarrow> ScaffoldCallData \<Rightarrow>
   py_error + ScaffoldCallData" where
  "call_alleles fo uninit min_pileup_qual min_qual_frac s =
     (let quals = map snd (alleles s);
          qual_fraction =
            map (\<lambda>p. qual_fraction_row fo (uninit p) (quals ! p)) [0..<length quals];
          evidence = map (map (\<lambda>q. q > 0)) quals;
          weak0 = map mask_sum evidence;
          confirmed =
            map2 (\<lambda>row fr. map2 (\<lambda>q f. real q > min_pileup_qual \<and> f > min_qual_frac) row fr)
              quals qual_fraction;
          strong0 = map mask_sum confirmed
      in err_bind (zero_where (high_coverage s) weak0) (\<lambda>w.
         err_bind (zero_where (high_coverage s) strong0) (\<lambda>st.
         Inr (s\<lparr>weak := Some w, strong := Some st\<rparr>))))"

text \<open>
  The calls as the specification words them, for one position with quality
  row \<open>row\<close>: the bitwise OR of the masks of exactly the alleles that satisfy a
  condition, the fraction of an allele (the float quotient of its quality sum
  by the total) taken as 0 when the row sums to 0.
\<close>

definition or_of_masks :: "(nat \<Rightarrow> bool) \<Rightarrow> int" where
  "or_of_masks P = fold (\<lambda>a acc. if P a then acc OR (ALLELE_MASKS ! a) else acc) [0..<6] 0"

definition spec_qual_frac :: "float_ops \<Rightarrow> nat list \<Rightarrow> nat \<Rightarrow> real" where
  "spec_qual_frac fo row a =
     (if sum_list row = 0 then 0 else fl_div fo (real (row ! a)) (real (sum_list row)))"

definition spec_weak :: "nat list \<Rightarrow> int" where
  "spec_weak row = or_of_masks (\<lambda>a. row ! a > 0)"

definition spec_strong :: "float_ops \<Rightarrow> real \<Rightarrow> real \<Rightarrow> nat list \<Rightarrow> int" where
  "spec_strong fo min_pileup_qual min_qual_frac row =
     or_of_masks (\<lambda>a. real (row ! a) > min_pileup_qual \<and> spec_qual_frac fo row a > min_qual_frac)"

text \<open>
  The shapes \<open>__init__\<close> gives the arrays: \<open>alleles\<close> has one entry per position
  and six columns in both rows, \<open>lowmq_count\<close> one entry per position.
\<close>

definition scd_shape :: "ScaffoldCallData \<Rightarrow> bool" where
  "scd_shape s \<longleftrightarrow>
     length (alleles s) = length_scd s \<and> length (lowmq_count s) = length_scd s \<and>
     list_all (\<lambda>row. length (fst row) = 6 \<and> length (snd row) = 6) (alleles s)"


text \<open>A scaffold for concrete runs.\<close>

definition scd_example :: ScaffoldCallData where
  "scd_example =
     \<lparr>name_scd = ''s1'', length_scd = 2, read_count = 11, refmask = [1, 1],
      alleles = [([2, 0, 0, 0, 1, 0], [60, 0, 0, 0, 4, 0]), ([9, 0, 0, 0, 0, 0], [270, 0, 0, 0, 0, 0])],
      bad = [0, 0], lowmq_count = [0, 0], lowmq = None, mq_sum = [120, 540],
      strong = None, weak = None, coverage = Some [3, 9], high_coverage = Some [False, True],
      mean_coverage = 6, median_coverage = 6, coverage_cutoff = 8, repetitiveness = 0,
      gaps = []\<rparr>"

section \<open>Allele.rc is an involution\<close>

text \<open>
  Claim C9.  For every Allele value \<open>v\<close>, \<open>rc (rc v) = v\<close>; \<open>rc\<close> swaps A with T
  and C with G; and on every value that is none of the four single bases (N, INS,
  DEL and every combination of several flags) it returns its argument.
\<close>

theorem rc_involution:
  "rc (rc v) = v
   \<and> rc Allele_A = Allele_T \<and> rc Allele_T = Allele_A
   \<and> rc Allele_C = Allele_G \<and> rc Allele_G = Allele_C
   \<and> rc Allele_N = Allele_N \<and> rc Allele_INS = Allele_INS \<and> rc Allele_DEL = Allele_DEL
   \<and> (v \<notin> {Allele_A, Allele_C, Allele_G, Allele_T} \<longrightarrow> rc v = v)"
  by (simp add: rc_def Allele_defs)

theorem rc_involution_witness:
  "rc (rc (Allele_A OR Allele_INS)) = Allele_A OR Allele_INS
   \<and> Allele_A OR Allele_INS \<notin> {Allele_A, Allele_C, Allele_G, Allele_T}
   \<and> rc (Allele_A OR Allele_INS) = Allele_A OR Allele_INS"
  using rc_involution [of "Allele_A OR Allele_INS"]
  by (simp add: Allele_defs)


section \<open>The mutators keep the k-mer set invariants\<close>

lemma map_nth_filter_upt:
  "map (\<lambda>i. a ! i) (filter (\<lambda>i. P (a ! i)) [0..<length a]) = filter P a"
proof -
  have "filter P (map (\<lambda>i. a ! i) [0..<length a]) = map (\<lambda>i. a ! i) (filter (P \<circ> (\<lambda>i. a ! i)) [0..<length a])"
    by (rule filter_map)
  then show ?thesis by (simp add: map_nth comp_def)
qed

lemma np_take_filter_upt:
  assumes "length a \<le> length b"
  shows "np_take b (filter Q [0..<length a]) = Inr (map (\<lambda>i. b ! i) (filter Q [0..<length a]))"
  using assms by (auto simp: np_take_def list_all_iff)

lemma take_ix_kmers:
  "np_take a (kmerizer_intersect_ix a b) = Inr (kmerizer_intersect a b)"
  unfolding kmerizer_intersect_ix_def kmerizer_intersect_def
  using map_nth_filter_upt[of a "\<lambda>x. x \<in> set b"]
  by (simp add: np_take_filter_upt)

lemma take_ix_counts:
  assumes "length a = length cs"
  shows "np_take cs (kmerizer_intersect_ix a b) = Inr (map (\<lambda>i. cs ! i) (kmerizer_intersect_ix a b))"
  unfolding kmerizer_intersect_ix_def using assms by (simp add: np_take_filter_upt)

lemma length_intersect_ix: "length (kmerizer_intersect_ix a b) = length (kmerizer_intersect a b)"
proof -
  have "length (map (\<lambda>i. a ! i) (kmerizer_intersect_ix a b)) = length (kmerizer_intersect a b)"
    unfolding kmerizer_intersect_ix_def kmerizer_intersect_def
    using map_nth_filter_upt[of a "\<lambda>x. x \<in> set b"] by simp
  then show ?thesis by simp
qed

lemma gathered_counts_pos:
  assumes "length a = length cs" "list_all (\<lambda>c. 1 \<le> c) cs"
  shows "list_all (\<lambda>c. 1 \<le> c) (map (\<lambda>i. cs ! i) (kmerizer_intersect_ix a b))"
  using assms by (auto simp: list_all_iff kmerizer_intersect_ix_def)

lemma intersect_of_diff: "kmerizer_intersect a (kmerizer_diff a b) = kmerizer_diff a b"
  unfolding kmerizer_intersect_def kmerizer_diff_def
  by (rule filter_cong) auto

lemma intersect_result:
  assumes "length (kmers self) = length (counts self)"
  shows "intersect self ks =
         Inr (self\<lparr>counts := map (\<lambda>i. counts self ! i) (kmerizer_intersect_ix (kmers self) ks),
                   kmers := kmerizer_intersect (kmers self) ks\<rparr>)"
  using assms by (simp add: intersect_def Let_def err_bind_def take_ix_kmers take_ix_counts)

lemma exclude_result:
  assumes "length (kmers self) = length (counts self)"
  shows "exclude self ks =
         Inr (self\<lparr>counts := map (\<lambda>i. counts self ! i)
                               (kmerizer_intersect_ix (kmers self) (kmerizer_diff (kmers self) ks)),
                   kmers := kmerizer_diff (kmers self) ks\<rparr>)"
  using assms by (simp add: exclude_def Let_def err_bind_def take_ix_counts)

lemma intersect_inv:
  assumes "kmerset_inv self"
  shows "\<exists>s'. intersect self ks = Inr s' \<and> kmerset_inv s'"
proof -
  from assms have len: "length (kmers self) = length (counts self)"
    and srt: "sorted_wrt (<) (kmers self)" and pos: "list_all (\<lambda>c. 1 \<le> c) (counts self)"
    by (simp_all add: kmerset_inv_def)
  have "sorted_wrt (<) (kmerizer_intersect (kmers self) ks)"
    unfolding kmerizer_intersect_def using srt by (rule sorted_wrt_filter)
  then show ?thesis
    using gathered_counts_pos[OF len pos, of ks]
    by (simp add: intersect_result[OF len] kmerset_inv_def length_intersect_ix)
qed

lemma exclude_inv:
  assumes "kmerset_inv self"
  shows "\<exists>s'. exclude self ks = Inr s' \<and> kmerset_inv s'"
proof -
  from assms have len: "length (kmers self) = length (counts self)"
    and srt: "sorted_wrt (<) (kmers self)" and pos: "list_all (\<lambda>c. 1 \<le> c) (counts self)"
    by (simp_all add: kmerset_inv_def)
  have "sorted_wrt (<) (kmerizer_diff (kmers self) ks)"
    unfolding kmerizer_diff_def using srt by (rule sorted_wrt_filter)
  then show ?thesis
    using gathered_counts_pos[OF len pos, of "kmerizer_diff (kmers self) ks"]
    by (simp add: exclude_result[OF len] kmerset_inv_def length_intersect_ix intersect_of_diff)
qed

lemma mutual_intersect_inv:
  assumes "kmerset_inv self" "kmerset_inv other"
  shows "\<exists>s' o'. mutual_intersect self other = Inr (s', o') \<and> kmerset_inv s' \<and> kmerset_inv o'"
proof -
  from assms(1) have len: "length (kmers self) = length (counts self)"
    and srt: "sorted_wrt (<) (kmers self)" and pos: "list_all (\<lambda>c. 1 \<le> c) (counts self)"
    by (simp_all add: kmerset_inv_def)
  from assms(2) have leno: "length (kmers other) = length (counts other)"
    and srto: "sorted_wrt (<) (kmers other)" and poso: "list_all (\<lambda>c. 1 \<le> c) (counts other)"
    by (simp_all add: kmerset_inv_def)
  have 1: "sorted_wrt (<) (kmerizer_intersect (kmers self) (kmers other))"
    unfolding kmerizer_intersect_def using srt by (rule sorted_wrt_filter)
  have 2: "sorted_wrt (<) (kmerizer_intersect (kmers other) ks)" for ks
    unfolding kmerizer_intersect_def using srto by (rule sorted_wrt_filter)
  show ?thesis
    using 1 2 gathered_counts_pos[OF len pos] gathered_counts_pos[OF leno poso]
    by (simp add: mutual_intersect_def Let_def err_bind_def take_ix_kmers take_ix_counts[OF len]
        take_ix_counts[OF leno] kmerset_inv_def length_intersect_ix)
qed

lemma np_mask_result:
  "length c = length a \<Longrightarrow> np_mask a c = Inr (map fst (filter snd (zip a c)))"
  by (simp add: np_mask_def)

lemma sorted_wrt_mask:
  "sorted_wrt R a \<Longrightarrow> sorted_wrt R (map fst (filter snd (zip a c)))"
proof (induction a arbitrary: c)
  case Nil
  then show ?case by simp
next
  case (Cons x a)
  show ?case
  proof (cases c)
    case Nil
    then show ?thesis by simp
  next
    case (Cons b c')
    have "\<forall>y \<in> set (map fst (filter snd (zip a c'))). R x y"
      using Cons.prems by (auto dest!: set_zip_leftD)
    then show ?thesis using Cons Cons.IH[of c'] Cons.prems by simp
  qed
qed

lemma length_mask:
  "length a = length c \<Longrightarrow> length (map fst (filter snd (zip a c))) = length (filter id c)"
  by (induction rule: list_induct2) auto

lemma freq_filter_inv:
  assumes "kmerset_inv self"
  shows "\<exists>s'. freq_filter self min_freq max_freq = Inr s' \<and> kmerset_inv s'"
proof -
  from assms have len: "length (kmers self) = length (counts self)"
    and srt: "sorted_wrt (<) (kmers self)" and pos: "list_all (\<lambda>c. 1 \<le> c) (counts self)"
    by (simp_all add: kmerset_inv_def)
  define condition where "condition =
     (case max_freq of
        None \<Rightarrow> map (\<lambda>c. min_freq \<le> int c) (counts self)
      | Some m \<Rightarrow>
          if m \<noteq> 0 then map2 (\<lambda>b c. b \<and> int c \<le> m) (map (\<lambda>c. min_freq \<le> int c) (counts self)) (counts self)
          else map (\<lambda>c. min_freq \<le> int c) (counts self))"
  have lc: "length condition = length (counts self)"
    by (simp add: condition_def split: option.splits)
  have run: "freq_filter self min_freq max_freq =
        Inr (self\<lparr>kmers := map fst (filter snd (zip (kmers self) condition)),
                  counts := map fst (filter snd (zip (counts self) condition))\<rparr>)"
    using lc len
    by (simp add: freq_filter_def Let_def condition_def[symmetric] err_bind_def np_mask_result)
  have l: "length (map fst (filter snd (zip (kmers self) condition)))
         = length (map fst (filter snd (zip (counts self) condition)))"
    using len lc length_mask[of "kmers self" condition] length_mask[of "counts self" condition]
    by simp
  have p: "list_all (\<lambda>c. 1 \<le> c) (map fst (filter snd (zip (counts self) condition)))"
    using pos by (auto simp: list_all_iff dest!: set_zip_leftD)
  show ?thesis
    using l p sorted_wrt_mask[OF srt, of condition]
    by (simp add: run kmerset_inv_def)
qed


text \<open>
  Claim C5.  For every KmerSet that satisfies the invariants (K-1) to (K-3)
  and every sorted and unique argument key array (for \<open>mutual_intersect\<close>: every
  other KmerSet satisfying the invariants), each of \<open>intersect\<close>, \<open>exclude\<close>,
  \<open>mutual_intersect\<close> and \<open>freq_filter\<close> returns without an error and leaves the
  KmerSet (for \<open>mutual_intersect\<close>: both) satisfying the three invariants.
\<close>

theorem mutators_keep_invariants:
  assumes "kmerset_inv self" and "kmerset_inv other" and "sorted_wrt (<) ks"
  shows "(\<exists>s'. intersect self ks = Inr s' \<and> kmerset_inv s')
       \<and> (\<exists>s'. exclude self ks = Inr s' \<and> kmerset_inv s')
       \<and> (\<exists>s' o'. mutual_intersect self other = Inr (s', o') \<and> kmerset_inv s' \<and> kmerset_inv o')
       \<and> (\<exists>s'. freq_filter self min_freq max_freq = Inr s' \<and> kmerset_inv s')"
  using intersect_inv[OF assms(1)] exclude_inv[OF assms(1)]
    mutual_intersect_inv[OF assms(1) assms(2)] freq_filter_inv[OF assms(1)]
  by simp

lemma ks_a_inv: "kmerset_inv ks_a"
  by (simp add: kmerset_inv_def ks_a_def)

lemma ks_b_inv: "kmerset_inv ks_b"
  by (simp add: kmerset_inv_def ks_b_def)

theorem mutators_keep_invariants_witness:
  "kmerset_inv ks_a \<and> kmerset_inv ks_b \<and> sorted_wrt (<) [5, 7 :: kmer]
   \<and> (\<exists>s'. intersect ks_a [5, 7] = Inr s' \<and> kmerset_inv s')
   \<and> (\<exists>s'. exclude ks_a [5, 7] = Inr s' \<and> kmerset_inv s')
   \<and> (\<exists>s' o'. mutual_intersect ks_a ks_b = Inr (s', o') \<and> kmerset_inv s' \<and> kmerset_inv o')
   \<and> (\<exists>s'. freq_filter ks_a 2 (Some 3) = Inr s' \<and> kmerset_inv s')"
proof -
  have s: "sorted_wrt (<) [5, 7 :: kmer]" by simp
  from mutators_keep_invariants [OF ks_a_inv ks_b_inv s, of 2 "Some 3"] ks_a_inv ks_b_inv s
  show ?thesis by blast
qed


section \<open>call\_alleles: weak and strong calls\<close>

lemma list6: "length xs = 6 \<Longrightarrow> \<exists>a b c d e f. xs = [a,b,c,d,e,f]"
  by (auto simp: length_Suc_conv eval_nat_numeral)

lemma mask_sum_horner: "mask_sum flags = horner_sum of_bool 2 (take 6 flags)"
proof -
  consider "flags = []" | a where "flags = [a]" | a b where "flags = [a,b]"
    | a b c where "flags = [a,b,c]" | a b c d where "flags = [a,b,c,d]"
    | a b c d e where "flags = [a,b,c,d,e]" | a b c d e f r where "flags = a#b#c#d#e#f#r"
    by (metis list.exhaust)
  then show ?thesis
    by cases (simp_all add: mask_sum_def ALLELE_MASKS_def Allele_defs)
qed

lemma bit_mask_sum: "bit (mask_sum flags) n \<longleftrightarrow> n < 6 \<and> n < length flags \<and> flags ! n"
  by (auto simp: mask_sum_horner bit_horner_sum_bit_iff)

lemma or_step: "(if b then acc OR m else acc) = acc OR (if b then m else (0::int))"
  by simp

lemma bit_if_pow: "bit (if b then (2::int) ^ k else 0) n \<longleftrightarrow> b \<and> n = k"
  by (simp add: bit_exp_iff)

lemma ALLELE_MASKS_pow: "ALLELE_MASKS = map (\<lambda>k. 2 ^ k) [0..<6]"
  by (simp add: ALLELE_MASKS_def Allele_defs upt_rec)

lemma bit_or_of_masks: "bit (or_of_masks P) n \<longleftrightarrow> n < 6 \<and> P n"
proof -
  have u: "[0..<6] = [0,1,2,3,4,5::nat]" by (simp add: upt_rec)
  have m: "ALLELE_MASKS = [2^0, 2^1, 2^2, 2^3, 2^4, 2^5]"
    unfolding ALLELE_MASKS_pow u by (simp del: power_0 power_one_right)
  have "or_of_masks P =
        (if P 0 then 2^0 else 0) OR (if P 1 then (2::int)^1 else 0) OR (if P 2 then 2^2 else 0)
        OR (if P 3 then 2^3 else 0) OR (if P 4 then 2^4 else 0) OR (if P 5 then 2^5 else 0)"
    unfolding or_of_masks_def u m fold_simps or_step
    by (simp add: or.assoc del: power_0 power_one_right)
  then have "bit (or_of_masks P) n \<longleftrightarrow>
      (P 0 \<and> n = 0) \<or> (P 1 \<and> n = 1) \<or> (P 2 \<and> n = 2) \<or> (P 3 \<and> n = 3) \<or> (P 4 \<and> n = 4) \<or> (P 5 \<and> n = 5)"
    by (simp only: bit_or_iff bit_if_pow)
  moreover have "n < 6 \<longleftrightarrow> n = 0 \<or> n = 1 \<or> n = 2 \<or> n = 3 \<or> n = 4 \<or> n = 5"
    by arith
  ultimately show ?thesis by blast
qed

lemma or_of_masks_mask_sum:
  "or_of_masks P = mask_sum (map P [0..<6])"
proof (rule bit_eqI)
  fix n
  have "n < 6 \<Longrightarrow> map P [0..<6] ! n = P n"
    by (simp only: nth_map_upt add_0 diff_zero)
  then show "bit (or_of_masks P) n = bit (mask_sum (map P [0..<6])) n"
    by (auto simp only: bit_or_of_masks bit_mask_sum length_map length_upt diff_zero)
qed

lemma zero_where_Some:
  "length hc = length a \<Longrightarrow>
   zero_where (Some hc) a = Inr (map (\<lambda>p. if hc ! p then 0 else a ! p) [0..<length a])"
  by (auto simp: zero_where_def intro!: nth_equalityI)

lemma weak_row:
  assumes "length r = 6"
  shows "mask_sum (map (\<lambda>q. q > 0) r) = spec_weak r"
proof -
  have "map (\<lambda>a. r ! a > 0) [0..<6] = map (\<lambda>q. q > 0) r"
    using assms by (auto intro!: nth_equalityI)
  then show ?thesis by (simp add: spec_weak_def or_of_masks_mask_sum)
qed

lemma strong_row:
  assumes len: "length r = 6" and ok: "0 \<le> mpq \<or> 0 < sum_list r"
  shows "mask_sum (map2 (\<lambda>q f. real q > mpq \<and> f > mqf) r (qual_fraction_row fo u r))
         = spec_strong fo mpq mqf r"
proof -
  have "map (\<lambda>a. real (r ! a) > mpq \<and> spec_qual_frac fo r a > mqf) [0..<6]
        = map2 (\<lambda>q f. real q > mpq \<and> f > mqf) r (qual_fraction_row fo u r)"
  proof (rule nth_equalityI)
    show "length (map (\<lambda>a. real (r ! a) > mpq \<and> spec_qual_frac fo r a > mqf) [0..<6])
          = length (map2 (\<lambda>q f. real q > mpq \<and> f > mqf) r (qual_fraction_row fo u r))"
      using len by (simp add: qual_fraction_row_def)
  next
    fix i assume "i < length (map (\<lambda>a. real (r ! a) > mpq \<and> spec_qual_frac fo r a > mqf) [0..<6])"
    then have i: "i < 6" by simp
    show "map (\<lambda>a. real (r ! a) > mpq \<and> spec_qual_frac fo r a > mqf) [0..<6] ! i
          = map2 (\<lambda>q f. real q > mpq \<and> f > mqf) r (qual_fraction_row fo u r) ! i"
    proof (cases "0 < sum_list r")
      case True
      then have "sum_list r \<noteq> 0" by (rule gr_implies_not0)
      then show ?thesis using i len True
        by (simp add: qual_fraction_row_def spec_qual_frac_def del: sum_list_eq_0_iff)
    next
      case False
      then have "\<forall>n\<in>set r. n = 0" by simp
      then have "r ! i = 0" using i len by simp
      moreover have "0 \<le> mpq" using False ok by (elim disjE) (assumption, erule notE)
      ultimately show ?thesis using i len
        by (simp add: qual_fraction_row_def spec_qual_frac_def)
    qed
  qed
  then show ?thesis by (simp add: spec_strong_def or_of_masks_mask_sum)
qed

lemma call_alleles_positions:
  assumes shape: "scd_shape s"
      and hc: "high_coverage s = Some hc" "length hc = length_scd s"
  shows "\<exists>w st. call_alleles fo uninit mpq mqf s = Inr (s\<lparr>weak := Some w, strong := Some st\<rparr>)
           \<and> length w = length_scd s \<and> length st = length_scd s
           \<and> (\<forall>p < length_scd s.
                 (hc ! p \<longrightarrow> w ! p = 0 \<and> st ! p = 0) \<and>
                 (\<not> hc ! p \<longrightarrow>
                    w ! p = spec_weak (snd (alleles s ! p)) \<and>
                    (0 \<le> mpq \<or> 0 < sum_list (snd (alleles s ! p)) \<longrightarrow>
                       st ! p = spec_strong fo mpq mqf (snd (alleles s ! p)))))"
proof -
  let ?n = "length_scd s"
  let ?quals = "map snd (alleles s)"
  let ?weakA = "map mask_sum (map (map (\<lambda>q. q > 0)) ?quals)"
  let ?fr = "map (\<lambda>p. qual_fraction_row fo (uninit p) (?quals ! p)) [0..<length ?quals]"
  let ?strongA = "map mask_sum (map2 (\<lambda>row fr. map2 (\<lambda>q f. real q > mpq \<and> f > mqf) row fr) ?quals ?fr)"
  let ?w = "map (\<lambda>p. if hc ! p then 0 else ?weakA ! p) [0..<length ?weakA]"
  let ?st = "map (\<lambda>p. if hc ! p then 0 else ?strongA ! p) [0..<length ?strongA]"
  have n: "length (alleles s) = ?n" using shape by (simp add: scd_shape_def)
  have rows: "\<And>p. p < ?n \<Longrightarrow> length (snd (alleles s ! p)) = 6"
    using shape by (simp add: scd_shape_def list_all_length)
  have lw: "length ?weakA = ?n" and lst: "length ?strongA = ?n" using n by simp_all
  have zw: "zero_where (high_coverage s) ?weakA = Inr ?w"
    using hc lw by (simp add: zero_where_Some)
  have zs: "zero_where (high_coverage s) ?strongA = Inr ?st"
    using hc lst by (simp add: zero_where_Some)
  have run: "call_alleles fo uninit mpq mqf s = Inr (s\<lparr>weak := Some ?w, strong := Some ?st\<rparr>)"
  proof -
    have "call_alleles fo uninit mpq mqf s =
          err_bind (zero_where (high_coverage s) ?weakA) (\<lambda>w.
          err_bind (zero_where (high_coverage s) ?strongA) (\<lambda>st.
            Inr (s\<lparr>weak := Some w, strong := Some st\<rparr>)))"
      by (simp only: call_alleles_def Let_def)
    also have "\<dots> = Inr (s\<lparr>weak := Some ?w, strong := Some ?st\<rparr>)"
      by (simp only: zw zs err_bind_def sum.case)
    finally show ?thesis .
  qed
  have pos: "(hc ! p \<longrightarrow> ?w ! p = 0 \<and> ?st ! p = 0) \<and>
             (\<not> hc ! p \<longrightarrow>
                ?w ! p = spec_weak (snd (alleles s ! p)) \<and>
                (0 \<le> mpq \<or> 0 < sum_list (snd (alleles s ! p)) \<longrightarrow>
                   ?st ! p = spec_strong fo mpq mqf (snd (alleles s ! p))))"
    if p: "p < ?n" for p
  proof -
    let ?r = "snd (alleles s ! p)"
    have w0: "?weakA ! p = spec_weak ?r" using p n rows[OF p] by (simp add: weak_row)
    have st0: "?strongA ! p = mask_sum (map2 (\<lambda>q f. real q > mpq \<and> f > mqf) ?r (qual_fraction_row fo (uninit p) ?r))"
      using p n by simp
    have wp: "?w ! p = (if hc ! p then 0 else ?weakA ! p)" using p lw by simp
    have sp: "?st ! p = (if hc ! p then 0 else ?strongA ! p)" using p lst by simp
    show ?thesis
      unfolding wp sp w0 st0 using strong_row[OF rows[OF p]] by simp
  qed
  have "length ?w = ?n" "length ?st = ?n" using lw lst by simp_all
  with run pos show ?thesis by blast
qed

text \<open>
  Claim C4.  For every ScaffoldCallData with the arrays of the constructor's
  shape and \<open>high_coverage\<close> computed, and thresholds of a valid configuration
  (\<open>min_pileup_qual\<close> not negative; section 7 makes a negative threshold an
  InvalidConfig), \<open>call_alleles\<close> returns with \<open>weak\<close> and \<open>strong\<close> set so that,
  at every position \<open>p\<close>: where \<open>high_coverage[p]\<close> holds both are 0; elsewhere
  \<open>weak[p]\<close> is the bitwise OR of the masks of exactly the alleles whose quality
  sum is greater than 0, and \<open>strong[p]\<close> is the bitwise OR of the masks of
  exactly the alleles whose quality sum exceeds \<open>min_pileup_qual\<close> and whose
  fraction of the total quality sum (taken as 0 when the total is 0) exceeds
  \<open>min_qual_frac\<close>.  This holds whatever the uninitialised entries of
  \<open>qual_fraction\<close> are and however the float division rounds.
\<close>

theorem call_alleles_calls:
  assumes shape: "scd_shape s"
      and hc: "high_coverage s = Some hc" "length hc = length_scd s"
      and mpq: "0 \<le> min_pileup_qual"
  shows "\<exists>w st. call_alleles fo uninit min_pileup_qual min_qual_frac s
                   = Inr (s\<lparr>weak := Some w, strong := Some st\<rparr>)
           \<and> length w = length_scd s \<and> length st = length_scd s
           \<and> (\<forall>p < length_scd s.
                 (hc ! p \<longrightarrow> w ! p = 0 \<and> st ! p = 0) \<and>
                 (\<not> hc ! p \<longrightarrow>
                    w ! p = spec_weak (snd (alleles s ! p)) \<and>
                    st ! p = spec_strong fo min_pileup_qual min_qual_frac (snd (alleles s ! p))))"
proof -
  from call_alleles_positions [OF shape hc, of fo uninit min_pileup_qual min_qual_frac]
  obtain w st where
    run: "call_alleles fo uninit min_pileup_qual min_qual_frac s
            = Inr (s\<lparr>weak := Some w, strong := Some st\<rparr>)"
    and len: "length w = length_scd s" "length st = length_scd s"
    and pos: "\<forall>p < length_scd s.
                 (hc ! p \<longrightarrow> w ! p = 0 \<and> st ! p = 0) \<and>
                 (\<not> hc ! p \<longrightarrow>
                    w ! p = spec_weak (snd (alleles s ! p)) \<and>
                    (0 \<le> min_pileup_qual \<or> 0 < sum_list (snd (alleles s ! p)) \<longrightarrow>
                       st ! p = spec_strong fo min_pileup_qual min_qual_frac (snd (alleles s ! p))))"
    by blast
  from pos mpq have "\<forall>p < length_scd s.
                 (hc ! p \<longrightarrow> w ! p = 0 \<and> st ! p = 0) \<and>
                 (\<not> hc ! p \<longrightarrow>
                    w ! p = spec_weak (snd (alleles s ! p)) \<and>
                    st ! p = spec_strong fo min_pileup_qual min_qual_frac (snd (alleles s ! p)))"
    by blast
  with run len show ?thesis by blast
qed

text \<open>
  Claim C10.  After \<open>call_alleles\<close> with \<open>min_pileup_qual\<close> at least 0, at every
  position the strong call is a sub-bitset of the weak call:
  \<open>strong[p] AND NOT weak[p] = 0\<close>.  Nothing is assumed of the shape of the
  arrays, of \<open>high_coverage\<close>, of the uninitialised fractions or of the
  rounding of the float division.
\<close>

theorem strong_subset_weak:
  assumes mpq: "0 \<le> mpq"
      and run: "call_alleles fo uninit mpq mqf s = Inr s'"
      and w: "weak s' = Some w" and st: "strong s' = Some st"
      and p: "p < length st"
  shows "p < length w \<and> (st ! p) AND NOT (w ! p) = 0"
proof -
  let ?quals = "map snd (alleles s)"
  let ?weakA = "map mask_sum (map (map (\<lambda>q. q > 0)) ?quals)"
  let ?fr = "map (\<lambda>p. qual_fraction_row fo (uninit p) (?quals ! p)) [0..<length ?quals]"
  let ?strongA = "map mask_sum (map2 (\<lambda>row fr. map2 (\<lambda>q f. real q > mpq \<and> f > mqf) row fr) ?quals ?fr)"
  have sub: "(?strongA ! q) AND NOT (?weakA ! q) = 0" if q: "q < length (alleles s)" for q
  proof (rule bit_eqI)
    fix n
    let ?r = "snd (alleles s ! q)"
    have "bit (?strongA ! q) n \<Longrightarrow> bit (?weakA ! q) n"
      using q mpq by (auto simp: bit_mask_sum)
    then show "bit ((?strongA ! q) AND NOT (?weakA ! q)) n = bit (0::int) n"
      by (auto simp: bit_and_iff bit_not_iff)
  qed
  from run obtain w' st' where zw: "zero_where (high_coverage s) ?weakA = Inr w'"
    and zs: "zero_where (high_coverage s) ?strongA = Inr st'"
    and s': "s' = s\<lparr>weak := Some w', strong := Some st'\<rparr>"
    unfolding call_alleles_def Let_def err_bind_def by (auto split: sum.splits)
  have [simp]: "w' = w" "st' = st" using s' w st by simp_all
  show ?thesis
  proof (cases "high_coverage s")
    case None
    then show ?thesis using zw zs p by (auto simp: zero_where_def)
  next
    case (Some hc)
    then show ?thesis using zw zs p sub[of p]
      by (auto simp: zero_where_def split: if_splits)
  qed
qed


lemma upt2: "[0..<2] = [0, 1]"
  by (simp add: upt_rec)

lemma upt6: "[0..<6] = [0, 1, 2, 3, 4, 5::nat]"
  by (simp add: upt_rec)

text \<open>
  A run on \<open>scd_example\<close> with thresholds 50 and 0.125: position 0 has evidence
  for A (quality 60) and INS (quality 4), position 1 is flagged
  \<open>high_coverage\<close>.  The quotients 60/64 and 4/64 are exact in binary64.
\<close>

lemma scd_example_run:
  "call_alleles exact_ops (\<lambda>p a. 7) 50 (1/8) scd_example
   = Inr (scd_example\<lparr>weak := Some [17, 0], strong := Some [1, 0]\<rparr>)"
  by (simp add: call_alleles_def scd_example_def zero_where_def err_bind_def mask_sum_def
      qual_fraction_row_def ALLELE_MASKS_def Allele_defs upt2 upt6 exact_ops_def)

lemma spec_calls_example:
  "spec_weak [60, 0, 0, 0, 4, 0] = 17" "spec_strong exact_ops 50 (1/8) [60, 0, 0, 0, 4, 0] = 1"
  by (simp_all add: spec_weak_def spec_strong_def or_of_masks_def spec_qual_frac_def upt6
      ALLELE_MASKS_def Allele_defs exact_ops_def)

theorem call_alleles_calls_witness:
  "scd_shape scd_example \<and> high_coverage scd_example = Some [False, True] \<and> (0::real) \<le> 50
   \<and> (\<exists>w st. call_alleles exact_ops (\<lambda>p a. 7) 50 (1/8) scd_example
                = Inr (scd_example\<lparr>weak := Some w, strong := Some st\<rparr>)
        \<and> w ! 0 = 17 \<and> st ! 0 = 1 \<and> w ! 1 = 0 \<and> st ! 1 = 0)"
proof -
  have sh: "scd_shape scd_example"
    by (simp add: scd_shape_def scd_example_def)
  have hc: "high_coverage scd_example = Some [False, True]"
    by (simp add: scd_example_def)
  have len: "length [False, True] = length_scd scd_example"
    by (simp add: scd_example_def)
  have mpq: "(0::real) \<le> 50" by simp
  from call_alleles_calls [OF sh hc len mpq, of exact_ops "\<lambda>p a. 7" "1/8"]
  obtain w st where run: "call_alleles exact_ops (\<lambda>p a. 7) 50 (1/8) scd_example
        = Inr (scd_example\<lparr>weak := Some w, strong := Some st\<rparr>)"
    and pos: "\<forall>p < length_scd scd_example.
                 ([False, True] ! p \<longrightarrow> w ! p = 0 \<and> st ! p = 0) \<and>
                 (\<not> [False, True] ! p \<longrightarrow>
                    w ! p = spec_weak (snd (alleles scd_example ! p)) \<and>
                    st ! p = spec_strong exact_ops 50 (1/8) (snd (alleles scd_example ! p)))"
    by blast
  have "0 < length_scd scd_example" "1 < length_scd scd_example"
    by (simp_all add: scd_example_def)
  with pos have p0: "w ! 0 = spec_weak (snd (alleles scd_example ! 0))"
      "st ! 0 = spec_strong exact_ops 50 (1/8) (snd (alleles scd_example ! 0))"
      and p1: "w ! 1 = 0" "st ! 1 = 0"
    by force+
  have "snd (alleles scd_example ! 0) = [60, 0, 0, 0, 4, 0]"
    by (simp add: scd_example_def)
  with p0 have "w ! 0 = 17" "st ! 0 = 1"
    by (simp_all add: spec_calls_example)
  with sh hc run p1 show ?thesis by simp blast
qed

theorem strong_subset_weak_witness:
  "(0::real) \<le> 50
   \<and> call_alleles exact_ops (\<lambda>p a. 7) 50 (1/8) scd_example
       = Inr (scd_example\<lparr>weak := Some [17, 0], strong := Some [1, 0]\<rparr>)
   \<and> ([1, 0] ! 0) AND NOT ([17, 0] ! 0) = (0::int)"
  using strong_subset_weak [OF _ scd_example_run, of "[17, 0]" "[1, 0]" 0]
    scd_example_run
  by simp


section \<open>min\_hash\<close>

lemma py_round_of_nat: "py_round (real n) = int n"
  by (simp add: py_round_def)

lemma py_slice_to_all: "length xs = n \<Longrightarrow> py_slice_to xs (int n) = xs"
  by (simp add: py_slice_to_def)

lemma min_hash_whole:
  assumes srt: "sorted (kmers self)"
      and perm: "mset (argsort (fnvhash_kmers (k_len self) (kmers self))) = mset [0..<length (kmers self)]"
      and one: "fl_mul fo (real (length (kmers self))) 1 = real (length (kmers self))"
  shows "min_hash fo fnvhash_kmers argsort self 1 = Inr (self\<lparr>fingerprint := Some (kmers self)\<rparr>)"
proof -
  let ?n = "length (kmers self)"
  let ?ord = "argsort (fnvhash_kmers (k_len self) (kmers self))"
  have len: "length ?ord = ?n"
    using perm by (metis size_mset length_upt diff_zero)
  have set: "set ?ord = {0..<?n}"
    using perm by (metis set_mset_mset set_upt)
  have take: "np_take (kmers self) ?ord = Inr (map (\<lambda>i. kmers self ! i) ?ord)"
    using set by (simp add: np_take_def list_all_iff)
  have "mset (map (\<lambda>i. kmers self ! i) ?ord) = mset (map (\<lambda>i. kmers self ! i) [0..<?n])"
    using perm by (metis mset_map)
  then have "mset (map (\<lambda>i. kmers self ! i) ?ord) = mset (kmers self)"
    by (simp add: map_nth)
  then have "sort (map (\<lambda>i. kmers self ! i) ?ord) = kmers self"
    using srt by (metis properties_for_sort)
  then show ?thesis
    by (simp add: min_hash_def Let_def one py_round_of_nat py_slice_to_all[OF len] take err_bind_def)
qed

text \<open>Pairwise distinct keys are put in ascending order by one permutation only.\<close>

lemma sorts_keys_unique:
  assumes a: "sorts_keys keys oa" and b: "sorts_keys keys ob" and d: "distinct keys"
  shows "oa = ob"
proof -
  let ?f = "\<lambda>i. keys ! i"
  have ma: "mset oa = mset [0..<length keys]" and sa: "sorted (map ?f oa)"
    using a by (simp_all add: sorts_keys_def)
  have mb: "mset ob = mset [0..<length keys]" and sb: "sorted (map ?f ob)"
    using b by (simp_all add: sorts_keys_def)
  have "mset (map ?f oa) = mset (map ?f ob)"
    using ma mb by simp
  then have eq: "map ?f oa = map ?f ob"
    using sa sb by (metis properties_for_sort)
  have "set oa = {0..<length keys}" "set ob = {0..<length keys}"
    using ma mb by (metis set_mset_mset set_upt)+
  moreover have "inj_on ?f {0..<length keys}"
    using d by (auto simp: inj_on_def nth_eq_iff_index_eq)
  ultimately have "inj_on ?f (set oa \<union> set ob)" by simp
  then show ?thesis using eq by (simp add: inj_on_map_eq_map)
qed

lemma min_hash_det:
  assumes "k_len a = k_len b" "kmers a = kmers b"
    and "argsort_a (fnvhash_kmers (k_len a) (kmers a)) = argsort_b (fnvhash_kmers (k_len a) (kmers a))"
  shows "returned_fingerprint (min_hash fo fnvhash_kmers argsort_a a fraction)
       = returned_fingerprint (min_hash fo fnvhash_kmers argsort_b b fraction)"
proof -
  from assms
  have "argsort_a (fnvhash_kmers (k_len a) (kmers a)) = argsort_b (fnvhash_kmers (k_len b) (kmers b))"
    by simp
  with assms(2) show ?thesis
    by (simp add: min_hash_def Let_def returned_fingerprint_def err_bind_def split: sum.splits)
qed

text \<open>
  Claim C7.  For every KmerSet whose \<open>kmers\<close> array is sorted, \<open>min_hash(1.0)\<close>
  produces a fingerprint equal to the \<open>kmers\<close> array, whatever the hash
  function and whatever permutation of the indices \<open>argsort\<close> returns (the
  float product \<open>size * 1.0\<close> being the size).  And for every fraction, two
  calls on KmerSets with equal \<open>k\<close> and equal \<open>kmers\<close> (they may differ in every
  other field) produce equal fingerprints, or raise the same error, also when
  the sorting step of the two calls is not the same function: it is enough
  that each call's \<open>argsort\<close> puts the hashes in ascending order and that the
  hashes of the set's k-mers are pairwise distinct or the two orders agree on
  them.
\<close>

theorem min_hash_whole_and_deterministic:
  "(sorted (kmers self) \<and>
    mset (argsort (fnvhash_kmers (k_len self) (kmers self))) = mset [0..<length (kmers self)] \<and>
    fl_mul fo (real (length (kmers self))) 1 = real (length (kmers self))
      \<longrightarrow> min_hash fo fnvhash_kmers argsort self 1 = Inr (self\<lparr>fingerprint := Some (kmers self)\<rparr>))
   \<and> (k_len a = k_len b \<and> kmers a = kmers b \<and>
      sorts_keys (fnvhash_kmers (k_len a) (kmers a)) (argsort_a (fnvhash_kmers (k_len a) (kmers a))) \<and>
      sorts_keys (fnvhash_kmers (k_len a) (kmers a)) (argsort_b (fnvhash_kmers (k_len a) (kmers a))) \<and>
      (distinct (fnvhash_kmers (k_len a) (kmers a)) \<or>
       argsort_a (fnvhash_kmers (k_len a) (kmers a)) = argsort_b (fnvhash_kmers (k_len a) (kmers a)))
      \<longrightarrow> returned_fingerprint (min_hash fo fnvhash_kmers argsort_a a fraction)
          = returned_fingerprint (min_hash fo fnvhash_kmers argsort_b b fraction))"
proof (intro conjI impI)
  assume "sorted (kmers self) \<and>
    mset (argsort (fnvhash_kmers (k_len self) (kmers self))) = mset [0..<length (kmers self)] \<and>
    fl_mul fo (real (length (kmers self))) 1 = real (length (kmers self))"
  then show "min_hash fo fnvhash_kmers argsort self 1 = Inr (self\<lparr>fingerprint := Some (kmers self)\<rparr>)"
    using min_hash_whole[of self argsort fnvhash_kmers fo] by blast
next
  let ?hs = "fnvhash_kmers (k_len a) (kmers a)"
  assume h: "k_len a = k_len b \<and> kmers a = kmers b \<and>
      sorts_keys ?hs (argsort_a ?hs) \<and> sorts_keys ?hs (argsort_b ?hs) \<and>
      (distinct ?hs \<or> argsort_a ?hs = argsort_b ?hs)"
  then have "argsort_a ?hs = argsort_b ?hs"
    using sorts_keys_unique[of ?hs "argsort_a ?hs" "argsort_b ?hs"] by blast
  with h show "returned_fingerprint (min_hash fo fnvhash_kmers argsort_a a fraction)
          = returned_fingerprint (min_hash fo fnvhash_kmers argsort_b b fraction)"
    using min_hash_det[of a b argsort_a fnvhash_kmers argsort_b fo fraction] by blast
qed

lemma argsort_stable_sorts: "sorts_keys keys (argsort_stable keys)"
  by (simp add: sorts_keys_def argsort_stable_def)

lemma argsort_reversed_sorts: "sorts_keys keys (argsort_reversed keys)"
  by (simp add: sorts_keys_def argsort_reversed_def)

lemma hash_example_ks_a:
  "hash_example (k_len ks_a) (kmers ks_a) = [21990232564220, 19791209307798, 32985348846330]"
  by (simp add: hash_example_def ks_a_def)

text \<open>
  The theorem at \<open>ks_a\<close> (three k-mers with pairwise distinct hashes), with the
  two sorting functions, and with a second set that differs in its counts.
\<close>

theorem min_hash_whole_and_deterministic_witness:
  "sorted (kmers ks_a)
   \<and> distinct (hash_example (k_len ks_a) (kmers ks_a))
   \<and> min_hash exact_ops hash_example argsort_stable ks_a 1 = Inr (ks_a\<lparr>fingerprint := Some [3, 5, 9]\<rparr>)
   \<and> returned_fingerprint (min_hash exact_ops hash_example argsort_stable ks_a (1/2))
     = returned_fingerprint
         (min_hash exact_ops hash_example argsort_reversed (ks_a\<lparr>counts := [1, 1, 1]\<rparr>) (1/2))"
proof -
  let ?b = "ks_a\<lparr>counts := [1, 1, 1]\<rparr>"
  let ?hs = "hash_example (k_len ks_a) (kmers ks_a)"
  have srt: "sorted (kmers ks_a)" by (simp add: ks_a_def)
  have perm: "mset (argsort_stable ?hs) = mset [0..<length (kmers ks_a)]"
    by (simp add: argsort_stable_def hash_example_def)
  have one: "fl_mul exact_ops (real (length (kmers ks_a))) 1 = real (length (kmers ks_a))"
    by (simp add: exact_ops_def)
  have eq: "k_len ks_a = k_len ?b \<and> kmers ks_a = kmers ?b"
    by simp
  have dist: "distinct ?hs"
    by (simp add: hash_example_ks_a)
  have km: "kmers ks_a = [3, 5, 9]" by (simp add: ks_a_def)
  from min_hash_whole_and_deterministic
         [of ks_a argsort_stable hash_example exact_ops ks_a ?b argsort_stable argsort_reversed "1/2"]
       srt perm one eq dist argsort_stable_sorts[of ?hs] argsort_reversed_sorts[of ?hs]
  have "min_hash exact_ops hash_example argsort_stable ks_a 1
          = Inr (ks_a\<lparr>fingerprint := Some (kmers ks_a)\<rparr>)"
    and "returned_fingerprint (min_hash exact_ops hash_example argsort_stable ks_a (1/2))
       = returned_fingerprint (min_hash exact_ops hash_example argsort_reversed ?b (1/2))"
    by blast+
  with srt dist km show ?thesis by simp
qed

section \<open>spectrum\_min\_max: the upper frequency\<close>

lemma count_list_replicate: "count_list (replicate n x) y = (if x = y then n else 0)"
  by (induction n) auto

lemma upt4: "[0..<4] = [0, 1, 2, 3]"
  by (simp add: upt_rec)

lemma spectrum_peak_last: "spectrum ks_peak_last = ([1, 2, 3, 4], [5000, 100, 2000, 3000])"
proof -
  have "set (counts ks_peak_last) = {1, 2, 3, 4}"
    by (auto simp: ks_peak_last_def)
  then have "set (counts ks_peak_last) = set [1, 2, 3, 4]"
    by simp
  moreover have "sorted_list_of_set (set [1, 2, 3, 4::nat]) = [1, 2, 3, 4]"
    by (rule sorted_list_of_set.idem_if_sorted_distinct) simp_all
  ultimately have "sorted_list_of_set (set (counts ks_peak_last)) = [1, 2, 3, 4]"
    by (simp only:)
  then show ?thesis
    by (simp add: spectrum_def Let_def, simp add: ks_peak_last_def count_list_replicate)
qed

text \<open>
  Claim C6 fails on the code where the loop of \<open>spectrum_min_max\<close> runs to its
  end.  On \<open>ks_peak_last\<close> with the defaults \<open>delta = 0.5\<close>,
  \<open>max_copy_number = 20\<close> the scan visits all four entries of the spectrum
  without a \<open>break\<close> and ends with \<open>min_index = 1\<close>, \<open>max_index = 3\<close>, \<open>i = 3\<close>;
  the method returns \<open>(freq[1], freq[3], freq[i - 1]) = (2, 4, 3)\<close>.  The third
  component is the frequency of the entry before the last one visited, not of
  the last one (4), and lies below the peak frequency the triple itself reports.
  (The products with 1.5 and 0.5 here are exact in binary64.)
\<close>

theorem spectrum_min_max_upper_before_last:
  "spectrum ks_peak_last = ([1, 2, 3, 4], [5000, 100, 2000, 3000])
   \<and> scan_loop exact_ops (1/2) 20 [1, 2, 3, 4] [5000, 100, 2000, 3000] [0..<4] scan_init
       = \<lparr>min_index = 1, max_index = 3, have_min = True, have_max = False,
          last_freq = 4, loop_i = Some 3, broke = False\<rparr>
   \<and> spectrum_min_max exact_ops ks_peak_last (1/2) 20 = Some (2, 4, 3)"
  by (simp add: spectrum_min_max_def spectrum_peak_last upt4 scan_body_def scan_init_def
      exact_ops_def)

section \<open>Reference: coordinates\<close>

lemma ref_example_eq:
  "ref_example =
     \<lparr>fasta = ''ref.fa'',
      scaffolds = [(''s1'', \<lparr>metadata_id = ''s1'', bases = ''ACGTA''\<rparr>),
                   (''s2'', \<lparr>metadata_id = ''s2'', bases = ''GGC''\<rparr>)],
      lengths = [5, 3], length_ref = 8\<rparr>"
  by (simp add: ref_example_def Reference_init_def)

text \<open>
  Claim C2 fails on the code: \<open>scaffold_to_genome_coord\<close> raises AttributeError
  on every reference that has a scaffold, because it iterates over the keys of
  the dict (strings) and reads their attribute \<open>name\<close>.  On \<open>ref_example\<close> the
  claim gives 6 for the 1-based coordinate 2 of scaffold \<open>s2\<close>; the sibling
  \<open>scaffold_coord\<close>, which iterates over the values, maps 6 back to \<open>(s2, 2)\<close>.
\<close>

theorem scaffold_to_genome_coord_raises:
  "scaffold_to_genome_coord ref_example ''s2'' 2 = Inl AttributeError
   \<and> scaffold_coord ref_example 6 = Some (''s2'', 2)"
  by (simp add: ref_example_eq scaffold_to_genome_coord_def scaffold_coord_def str_name_def
      err_bind_def)

text \<open>The same on every reference with at least one scaffold, for every argument.\<close>

lemma scaffold_to_genome_coord_always_raises:
  assumes "scaffolds self \<noteq> []" "lengths self \<noteq> []"
  shows "scaffold_to_genome_coord self scaffold_name coord = Inl AttributeError"
proof -
  obtain k v d where s: "scaffolds self = (k, v) # d"
    using assms(1) by (cases "scaffolds self") auto
  obtain l ls where l: "lengths self = l # ls"
    using assms(2) by (cases "lengths self") auto
  show ?thesis
    by (simp add: scaffold_to_genome_coord_def s l str_name_def err_bind_def)
qed

text \<open>
  What \<open>scaffold_coord\<close> computes: for the \<open>j\<close>-th scaffold and a 1-based local
  coordinate within it, the global coordinate ``sum of the lengths of the prior
  scaffolds plus local minus 1'' is mapped back to the scaffold's id and the
  local coordinate.
\<close>

lemma scaffold_coord_loop_at:
  assumes "j < length zs" "1 \<le> local" "local \<le> int (snd (zs ! j))"
  shows "scaffold_coord_loop (offset + int (sum_list (map snd (take j zs))) + local - 1) offset zs
         = Some (metadata_id (fst (zs ! j)), local)"
  using assms
proof (induction zs arbitrary: j offset)
  case Nil
  then show ?case by simp
next
  case (Cons z zs)
  obtain sc len where z: "z = (sc, len)" by (cases z)
  show ?case
  proof (cases j)
    case 0
    then show ?thesis using Cons.prems z by simp
  next
    case (Suc j')
    have "scaffold_coord_loop (offset + int len + int (sum_list (map snd (take j' zs))) + local - 1)
            (offset + int len) zs = Some (metadata_id (fst (zs ! j')), local)"
      using Cons.IH[of j' "offset + int len"] Cons.prems Suc by simp
    moreover have "\<not> offset + int len + int (sum_list (map snd (take j' zs))) + local - 1 < offset + int len"
      using Cons.prems(2) by simp
    ultimately show ?thesis using Suc z by (simp add: algebra_simps)
  qed
qed

lemma scaffold_coord_inverse:
  assumes "length (lengths self) = length (scaffolds self)" "j < length (scaffolds self)"
    and "1 \<le> local" "local \<le> int (lengths self ! j)"
  shows "scaffold_coord self (int (sum_list (take j (lengths self))) + local - 1)
         = Some (metadata_id (snd (scaffolds self ! j)), local)"
proof -
  let ?zs = "zip (map snd (scaffolds self)) (lengths self)"
  have j: "j < length ?zs" using assms by simp
  have "map snd (take j ?zs) = take j (lengths self)"
    using assms(1) by (simp add: take_zip[symmetric] take_map[symmetric] del: take_zip)
  moreover have "snd (?zs ! j) = lengths self ! j" "fst (?zs ! j) = snd (scaffolds self ! j)"
    using assms by simp_all
  ultimately show ?thesis
    using scaffold_coord_loop_at[of j ?zs local 0] j assms(3,4)
    by (simp add: scaffold_coord_def)
qed

section \<open>find\_close\_references: the pan-genome metrics\<close>






















end
